theory Spec2Isabelle
  imports Complex_Main "HOL-Library.Sublist"
begin

section \<open>Python values and errors\<close>

text \<open>
  The exceptions that the modelled code can raise. Every function that can raise returns
  \<open>py_error + 'a\<close>, with \<open>Inl\<close> for the exception.
\<close>

datatype py_error = KeyError | ValueError | TypeError | AttributeError | UnboundLocalError

definition bind_res :: "py_error + 'a \<Rightarrow> ('a \<Rightarrow> py_error + 'b) \<Rightarrow> py_error + 'b" where
  "bind_res r f = (case r of Inl e \<Rightarrow> Inl e | Inr v \<Rightarrow> f v)"

section \<open>Identifier normalisation: \<open>str.replace\<close>\<close>

text \<open>
  The source normalises identifiers with \<^verbatim>\<open>s.replace("ctr_", "")\<close> and
  \<^verbatim>\<open>s.replace("grp_", "")\<close>. Python's \<open>str.replace(old, new)\<close> scans from the
  left and substitutes every non-overlapping occurrence of \<open>old\<close>; with an empty \<open>old\<close>
  it puts \<open>new\<close> before every character and at the end.
\<close>

function py_replace :: "string \<Rightarrow> string \<Rightarrow> string \<Rightarrow> string" where
  "py_replace s old new =
     (if old = [] then
        (case s of [] \<Rightarrow> new | c # cs \<Rightarrow> new @ c # py_replace cs old new)
      else if s = [] then []
      else if prefix old s then new @ py_replace (drop (length old) s) old new
      else hd s # py_replace (tl s) old new)"
  by pat_completeness auto
termination
  by (relation "measure (\<lambda>(s, old, new). length s)") (auto simp: neq_Nil_conv)

declare py_replace.simps [simp del]

definition strip_prefix :: "string \<Rightarrow> string \<Rightarrow> string" where
  "strip_prefix raw pre = py_replace raw pre []"

lemma py_replace_Nil [simp]: "old \<noteq> [] \<Longrightarrow> py_replace [] old new = []"
  by (subst py_replace.simps) simp

lemma py_replace_prefix:
  "old \<noteq> [] \<Longrightarrow> prefix old s \<Longrightarrow>
     py_replace s old new = new @ py_replace (drop (length old) s) old new"
  by (subst py_replace.simps) auto

lemma py_replace_no_prefix:
  "old \<noteq> [] \<Longrightarrow> \<not> prefix old (c # cs) \<Longrightarrow>
     py_replace (c # cs) old new = c # py_replace cs old new"
  by (subst py_replace.simps) simp

lemma length_py_replace_le: "old \<noteq> [] \<Longrightarrow> length (py_replace s old []) \<le> length s"
proof (induction s old "[] :: string" rule: py_replace.induct)
  case (1 s old)
  show ?case
  proof (cases s)
    case Nil
    with 1(4) show ?thesis by simp
  next
    case (Cons c cs)
    show ?thesis
    proof (cases "prefix old s")
      case True
      have "length (py_replace (drop (length old) s) old []) \<le> length (drop (length old) s)"
        using 1(2) 1(4) True Cons by simp
      then show ?thesis
        using py_replace_prefix [OF 1(4) True, of "[]"] by simp
    next
      case False
      have "length (py_replace (tl s) old []) \<le> length (tl s)"
        using 1(3) 1(4) False Cons by simp
      then show ?thesis
        using py_replace_no_prefix [of old c cs "[]"] 1(4) False Cons by simp
    qed
  qed
qed

lemma py_replace_absent: "\<not> sublist old s \<Longrightarrow> py_replace s old [] = s"
proof (induction s)
  case Nil
  then have "old \<noteq> []" by auto
  then show ?case by simp
next
  case (Cons c cs)
  then have ne: "old \<noteq> []" by auto
  from Cons.prems have np: "\<not> prefix old (c # cs)" and ns: "\<not> sublist old cs"
    by (auto simp: sublist_Cons_right)
  show ?case
    using py_replace_no_prefix [OF ne np, of "[]"] Cons.IH [OF ns] by simp
qed

lemma py_replace_present:
  "old \<noteq> [] \<Longrightarrow> sublist old s \<Longrightarrow> length (py_replace s old []) < length s"
proof (induction s)
  case Nil
  then show ?case by simp
next
  case (Cons c cs)
  show ?case
  proof (cases "prefix old (c # cs)")
    case True
    have "length (py_replace (drop (length old) (c # cs)) old []) \<le> length (drop (length old) (c # cs))"
      by (rule length_py_replace_le [OF Cons.prems(1)])
    moreover have "length (drop (length old) (c # cs)) < length (c # cs)"
      using Cons.prems(1) by (cases old) auto
    ultimately show ?thesis
      using py_replace_prefix [OF Cons.prems(1) True, of "[]"] by simp
  next
    case False
    with Cons.prems have "sublist old cs" by (simp add: sublist_Cons_right)
    then have "length (py_replace cs old []) < length cs"
      using Cons.IH Cons.prems(1) by simp
    then show ?thesis
      using py_replace_no_prefix [OF Cons.prems(1) False, of "[]"] by simp
  qed
qed

text \<open>
  C8 (as the code has it). Removing a namespace prefix is \<open>str.replace(prefix, "")\<close>: it
  leaves the identifier unchanged exactly when the prefix text occurs nowhere in the
  identifier, at the start or elsewhere.
\<close>

theorem strip_prefix_passthrough_iff:
  "pre \<noteq> [] \<Longrightarrow> (strip_prefix raw pre = raw) = (\<not> sublist pre raw)"
proof
  assume ne: "pre \<noteq> []" and eq: "strip_prefix raw pre = raw"
  show "\<not> sublist pre raw"
  proof
    assume "sublist pre raw"
    from py_replace_present [OF ne this] eq show False
      by (simp add: strip_prefix_def)
  qed
next
  assume "\<not> sublist pre raw"
  then show "strip_prefix raw pre = raw"
    by (simp add: strip_prefix_def py_replace_absent)
qed

theorem strip_prefix_passthrough_iff_witness:
  "''ctr_'' \<noteq> [] \<and> strip_prefix ''1-5C13O2'' ''ctr_'' = ''1-5C13O2''
     \<and> \<not> sublist ''ctr_'' ''1-5C13O2''"
proof -
  have ns: "\<not> sublist ''ctr_'' ''1-5C13O2''"
    by (simp add: sublist_Cons_right)
  have ne: "''ctr_'' \<noteq> []" by simp
  from strip_prefix_passthrough_iff [OF ne, of "''1-5C13O2''"] ns show ?thesis
    by simp
qed

text \<open>
  C8 (as the specification states it) fails: an identifier that does not start with the prefix
  but contains its text further on is changed.
\<close>

theorem strip_prefix_passthrough_counterexample:
  "\<not> prefix ''ctr_'' ''x-ctr_1'' \<and> strip_prefix ''x-ctr_1'' ''ctr_'' \<noteq> ''x-ctr_1''"
proof -
  have "sublist ''ctr_'' ''x-ctr_1''"
    by (simp add: sublist_Cons_right)
  then have "length (strip_prefix ''x-ctr_1'' ''ctr_'') < length ''x-ctr_1''"
    unfolding strip_prefix_def by (intro py_replace_present) simp
  then show ?thesis by auto
qed

section \<open>Hierarchy resolver\<close>

text \<open>
  A node of the flat group list, as the group API returns it. \<open>parentGroupId = None\<close>
  stands for a node without the key \<^verbatim>\<open>"parentGroupId"\<close>.
\<close>

record group =
  groupId :: string
  parentGroupId :: "string option"
  groupName :: string
  contractIds :: "string list"

text \<open>
  \<^verbatim>\<open>groupPath\<close> returns at the first node of the list whose id matches, and recurses
  on the parent id without any guard against a cycle: it need not return, so the model is
  a partial function and \<open>None\<close> is "does not return".
\<close>

partial_function (option) groupPath :: "string \<Rightarrow> group list \<Rightarrow> string list option" where
  "groupPath gid groups =
     (case find (\<lambda>g. groupId g = gid) groups of
        None \<Rightarrow> Some []
      | Some g \<Rightarrow>
          (case parentGroupId g of
             Some p \<Rightarrow> Option.bind (groupPath p groups) (\<lambda>pp. Some (pp @ [groupName g]))
           | None \<Rightarrow> Some [groupName g]))"

declare groupPath.simps [code]

text \<open>
  \<^verbatim>\<open>rootContract\<close>: the inner result is Python's return value (\<open>None\<close> for
  \<^verbatim>\<open>None\<close>), the outer \<open>None\<close> is "does not return". \<^verbatim>\<open>contractId[4:]\<close> is
  \<open>drop 4\<close> and \<^verbatim>\<open>x in name\<close> on strings is the substring test \<open>sublist\<close>.
\<close>

partial_function (option) rootContract :: "group \<Rightarrow> group list \<Rightarrow> string option option" where
  "rootContract grp groups =
     (case (case parentGroupId grp of
              None \<Rightarrow> None
            | Some p \<Rightarrow> find (\<lambda>x. groupId x = p) groups) of
        Some x \<Rightarrow> rootContract x groups
      | None \<Rightarrow>
          Some (find (\<lambda>contractId. sublist (drop 4 contractId) (groupName grp))
                  (contractIds grp)))"

declare rootContract.simps [code]



definition ex_groups :: "group list" where
  "ex_groups =
     [\<lparr>groupId = ''grp_1'', parentGroupId = None, groupName = ''1-ACME'',
        contractIds = [''ctr_1'']\<rparr>,
      \<lparr>groupId = ''grp_2'', parentGroupId = Some ''grp_1'', groupName = ''Team'',
        contractIds = [''ctr_1'']\<rparr>]"

definition ex_orphan :: group where
  "ex_orphan =
     \<lparr>groupId = ''grp_3'', parentGroupId = Some ''grp_9'', groupName = ''Shop 1-ABC'',
      contractIds = [''ctr_2-XYZ'', ''ctr_1-ABC'']\<rparr>"





lemma find_first:
  "case find P xs of
     None \<Rightarrow> \<forall>c \<in> set xs. \<not> P c
   | Some c \<Rightarrow> (\<exists>i < length xs. xs ! i = c \<and> P c \<and> (\<forall>j < i. \<not> P (xs ! j)))"
  by (auto split: option.splits simp: find_None_iff find_Some_iff)

text \<open>
  C10. A group whose \<open>parentGroupId\<close> matches no node of the list is resolved from its own
  contract ids: the result is the first contract id whose text after the first four
  characters occurs in the group's name, or none when there is no such contract id.
\<close>

theorem rootContract_unmatched_parent:
  assumes "parentGroupId grp = Some p"
    and "find (\<lambda>x. groupId x = p) groups = None"
  shows "\<exists>res. rootContract grp groups = Some res \<and>
     res = find (\<lambda>contractId. sublist (drop 4 contractId) (groupName grp)) (contractIds grp) \<and>
     (case res of
        None \<Rightarrow> \<forall>c \<in> set (contractIds grp). \<not> sublist (drop 4 c) (groupName grp)
      | Some c \<Rightarrow>
          (\<exists>i < length (contractIds grp). contractIds grp ! i = c \<and>
             sublist (drop 4 c) (groupName grp) \<and>
             (\<forall>j < i. \<not> sublist (drop 4 (contractIds grp ! j)) (groupName grp))))"
proof -
  let ?res = "find (\<lambda>contractId. sublist (drop 4 contractId) (groupName grp)) (contractIds grp)"
  have r: "rootContract grp groups = Some ?res"
    using assms by (subst rootContract.simps) simp
  have "case ?res of
        None \<Rightarrow> \<forall>c \<in> set (contractIds grp). \<not> sublist (drop 4 c) (groupName grp)
      | Some c \<Rightarrow>
          (\<exists>i < length (contractIds grp). contractIds grp ! i = c \<and>
             sublist (drop 4 c) (groupName grp) \<and>
             (\<forall>j < i. \<not> sublist (drop 4 (contractIds grp ! j)) (groupName grp)))"
    by (rule find_first)
  with r show ?thesis
    by blast
qed

theorem rootContract_unmatched_parent_witness:
  "parentGroupId ex_orphan = Some ''grp_9'' \<and>
   find (\<lambda>x. groupId x = ''grp_9'') ex_groups = None \<and>
   rootContract ex_orphan ex_groups = Some (Some ''ctr_1-ABC'')"
proof -
  have p: "parentGroupId ex_orphan = Some ''grp_9''"
    by (simp add: ex_orphan_def)
  have f: "find (\<lambda>x. groupId x = ''grp_9'') ex_groups = None"
    by (simp add: ex_groups_def)
  from rootContract_unmatched_parent [OF p f] p f show ?thesis
    by (auto simp: ex_orphan_def sublist_Cons_right)
qed

section \<open>Month arithmetic\<close>

text \<open>
  \<^verbatim>\<open>month_add\<close> uses \<open>str.split\<close>, \<open>int\<close> and the format specifications \<open>04\<close> and \<open>02\<close>.
  Strings are ASCII here. \<open>int\<close> accepts surrounding whitespace, one sign and decimal digits
  that single underscores may separate; anything else raises \<open>ValueError\<close>. A format with
  a leading \<open>0\<close> pads with zeros between the sign and the digits up to the width.
\<close>

definition is_digit :: "char \<Rightarrow> bool" where
  "is_digit c = (48 \<le> (of_char c :: nat) \<and> (of_char c :: nat) \<le> 57)"

definition digit_val :: "char \<Rightarrow> nat" where
  "digit_val c = of_char c - 48"

definition digit_char :: "nat \<Rightarrow> char" where
  "digit_char d = char_of (48 + d)"

definition is_space :: "char \<Rightarrow> bool" where
  "is_space c = (c \<in> set [CHR 0x09, CHR 0x0A, CHR 0x0B, CHR 0x0C, CHR 0x0D,
                           CHR 0x1C, CHR 0x1D, CHR 0x1E, CHR 0x1F, CHR 0x20])"

definition py_strip :: "string \<Rightarrow> string" where
  "py_strip s = dropWhile is_space (rev (dropWhile is_space (rev s)))"

definition parse_nat :: "string \<Rightarrow> nat" where
  "parse_nat ds = foldl (\<lambda>n c. 10 * n + digit_val c) 0 ds"

fun digit_groups :: "string \<Rightarrow> bool" where
  "digit_groups [] = False"
| "digit_groups [c] = is_digit c"
| "digit_groups (c # d # cs) =
     (is_digit c \<and> (if d = CHR ''_'' then digit_groups cs else digit_groups (d # cs)))"

definition py_int :: "string \<Rightarrow> py_error + int" where
  "py_int s =
     (let t = py_strip s;
          signed = (t \<noteq> [] \<and> (hd t = CHR ''-'' \<or> hd t = CHR ''+''));
          body = (if signed then tl t else t)
      in if digit_groups body
         then Inr ((if signed \<and> hd t = CHR ''-'' then - 1 else 1)
                     * int (parse_nat (filter is_digit body)))
         else Inl ValueError)"

function digs :: "nat \<Rightarrow> string" where
  "digs n = (if n = 0 then [] else digs (n div 10) @ [digit_char (n mod 10)])"
  by pat_completeness auto
termination
  by (relation "measure id") auto

declare digs.simps [simp del]

definition str_nat :: "nat \<Rightarrow> string" where
  "str_nat n = (if n = 0 then ''0'' else digs n)"

definition zpad :: "nat \<Rightarrow> string \<Rightarrow> string" where
  "zpad w s = replicate (w - length s) (CHR ''0'') @ s"

definition fmt0 :: "nat \<Rightarrow> int \<Rightarrow> string" where
  "fmt0 w i =
     (if i < 0 then CHR ''-'' # zpad (w - 1) (str_nat (nat (- i)))
      else zpad w (str_nat (nat i)))"

fun py_split :: "char \<Rightarrow> string \<Rightarrow> string list" where
  "py_split sep [] = [[]]"
| "py_split sep (c # cs) =
     (if c = sep then [] # py_split sep cs
      else (case py_split sep cs of p # ps \<Rightarrow> (c # p) # ps | [] \<Rightarrow> [[c]]))"

function carry_up :: "int \<Rightarrow> int \<Rightarrow> int \<times> int" where
  "carry_up mm y = (if mm > 12 then carry_up (mm - 12) (y + 1) else (mm, y))"
  by pat_completeness auto
termination
  by (relation "measure (\<lambda>(mm, y). nat mm)") auto

function carry_down :: "int \<Rightarrow> int \<Rightarrow> int \<times> int" where
  "carry_down mm y = (if mm < 1 then carry_down (mm + 12) (y - 1) else (mm, y))"
  by pat_completeness auto
termination
  by (relation "measure (\<lambda>(mm, y). nat (1 - mm))") auto

declare carry_up.simps [simp del] carry_down.simps [simp del]

definition month_add :: "string \<Rightarrow> int \<Rightarrow> py_error + string" where
  "month_add m n =
     (case py_split (CHR ''-'') m of
        [ys, ms] \<Rightarrow>
          bind_res (py_int ys) (\<lambda>y.
          bind_res (py_int ms) (\<lambda>mm.
            (case carry_up (mm + n) y of (mm1, y1) \<Rightarrow>
              (case carry_down mm1 y1 of (mm2, y2) \<Rightarrow>
                 Inr (fmt0 4 y2 @ ''-'' @ fmt0 2 mm2)))))
      | _ \<Rightarrow> Inl ValueError)"


lemma is_digit_digit_char: "d < 10 \<Longrightarrow> is_digit (digit_char d)"
  by (simp add: is_digit_def digit_char_def)

lemma digit_val_digit_char: "d < 10 \<Longrightarrow> digit_val (digit_char d) = d"
  by (simp add: digit_val_def digit_char_def)

lemma digit_char_digit_val: "is_digit c \<Longrightarrow> digit_char (digit_val c) = c"
  by (simp add: is_digit_def digit_val_def digit_char_def)

lemma digit_val_less: "is_digit c \<Longrightarrow> digit_val c < 10"
  by (auto simp: is_digit_def digit_val_def)

lemma is_digit_zero: "is_digit (CHR ''0'')" and digit_val_zero: "digit_val (CHR ''0'') = 0"
  by (simp_all add: is_digit_def digit_val_def)

lemma digit_val_eq_0: "is_digit c \<Longrightarrow> digit_val c = 0 \<Longrightarrow> c = CHR ''0''"
proof -
  assume "is_digit c" and "digit_val c = 0"
  then have "(of_char c :: nat) = of_char (CHR ''0'')"
    by (simp add: is_digit_def digit_val_def)
  then show ?thesis
    by (simp only: of_char_eq_iff)
qed

lemma is_digit_not_special:
  assumes "is_digit c"
  shows "\<not> is_space c" and "c \<noteq> CHR ''-''" and "c \<noteq> CHR ''+''" and "c \<noteq> CHR ''_''"
  using assms by (auto simp: is_digit_def is_space_def)

lemma parse_nat_snoc: "parse_nat (ds @ [c]) = 10 * parse_nat ds + digit_val c"
  by (simp add: parse_nat_def)

lemma parse_nat_Nil: "parse_nat [] = 0"
  by (simp add: parse_nat_def)

lemma foldl_digits_zeros:
  "foldl (\<lambda>n c. 10 * n + digit_val c) 0 (replicate k (CHR ''0'')) = 0"
  by (induction k) (simp_all add: digit_val_zero)

lemma parse_nat_zeros: "parse_nat (replicate k (CHR ''0'') @ s) = parse_nat s"
  by (simp add: parse_nat_def foldl_digits_zeros)

lemma digs_0: "digs 0 = []"
  by (subst digs.simps) simp

lemma digs_step: "0 < n \<Longrightarrow> digs n = digs (n div 10) @ [digit_char (n mod 10)]"
  by (subst digs.simps) simp

lemma digs_digits: "\<forall>c \<in> set (digs n). is_digit c"
proof (induction n rule: digs.induct)
  case (1 n)
  show ?case
  proof (cases "n = 0")
    case True
    then show ?thesis by (simp add: digs_0)
  next
    case False
    with 1 show ?thesis
      by (simp add: digs_step is_digit_digit_char)
  qed
qed

lemma parse_nat_digs: "parse_nat (digs n) = n"
proof (induction n rule: digs.induct)
  case (1 n)
  show ?case
  proof (cases "n = 0")
    case True
    then show ?thesis by (simp add: digs_0 parse_nat_Nil)
  next
    case False
    with 1 show ?thesis
      by (simp add: digs_step parse_nat_snoc digit_val_digit_char)
  qed
qed

lemma digs_parse_snoc:
  assumes "is_digit c" and "0 < 10 * n + digit_val c"
  shows "digs (10 * n + digit_val c) = digs n @ [c]"
proof -
  have "(10 * n + digit_val c) div 10 = n" and "(10 * n + digit_val c) mod 10 = digit_val c"
    using digit_val_less [OF assms(1)] by simp_all
  then show ?thesis
    using digs_step [OF assms(2)] digit_char_digit_val [OF assms(1)] by simp
qed

lemma zpad_Nil: "zpad w [] = replicate w (CHR ''0'')"
  by (simp add: zpad_def)

lemma zpad_digs_parse:
  "\<forall>c \<in> set ds. is_digit c \<Longrightarrow>
     length (digs (parse_nat ds)) \<le> length ds \<and> zpad (length ds) (digs (parse_nat ds)) = ds"
proof (induction ds rule: rev_induct)
  case Nil
  then show ?case by (simp add: parse_nat_Nil digs_0 zpad_def)
next
  case (snoc c ds)
  then have dc: "is_digit c" and IH: "length (digs (parse_nat ds)) \<le> length ds"
    "zpad (length ds) (digs (parse_nat ds)) = ds"
    by simp_all
  show ?case
  proof (cases "10 * parse_nat ds + digit_val c = 0")
    case True
    then have p0: "parse_nat ds = 0" and c0: "digit_val c = 0" by simp_all
    from IH(2) p0 have "ds = replicate (length ds) (CHR ''0'')"
      by (simp add: digs_0 zpad_Nil)
    moreover have "c = CHR ''0''"
      using digit_val_eq_0 [OF dc c0] .
    ultimately have "ds @ [c] = replicate (Suc (length ds)) (CHR ''0'')"
      by (metis replicate_Suc replicate_append_same)
    then have "zpad (length (ds @ [c])) [] = ds @ [c]"
      by (simp add: zpad_Nil)
    moreover have "digs (parse_nat (ds @ [c])) = []"
      using True by (simp only: parse_nat_snoc digs_0)
    ultimately show ?thesis
      by simp
  next
    case False
    then have "digs (10 * parse_nat ds + digit_val c) = digs (parse_nat ds) @ [c]"
      using digs_parse_snoc [OF dc] by simp
    then show ?thesis
      using IH by (simp add: parse_nat_snoc zpad_def)
  qed
qed

lemma zpad_str_nat: "0 < w \<Longrightarrow> zpad w (str_nat n) = zpad w (digs n)"
  by (cases w) (simp_all add: str_nat_def zpad_def digs_0 replicate_append_same)

lemma str_nat_digits: "\<forall>c \<in> set (str_nat n). is_digit c"
  using digs_digits [of n] by (simp add: str_nat_def is_digit_zero)

lemma str_nat_nonempty: "str_nat n \<noteq> []"
  using digs_step [of n] by (cases "n = 0") (simp_all add: str_nat_def)

lemma parse_nat_str_nat: "parse_nat (str_nat n) = n"
  using parse_nat_zeros [of 1 "[]"]
  by (simp add: str_nat_def parse_nat_digs parse_nat_Nil)

lemma zpad_digits: "\<forall>c \<in> set s. is_digit c \<Longrightarrow> \<forall>c \<in> set (zpad w s). is_digit c"
  by (auto simp: zpad_def is_digit_zero)

lemma zpad_nonempty: "s \<noteq> [] \<Longrightarrow> zpad w s \<noteq> []"
  by (simp add: zpad_def)

lemma parse_nat_zpad: "parse_nat (zpad w s) = parse_nat s"
  by (simp add: zpad_def parse_nat_zeros)


lemma digit_groups_digits:
  "ds \<noteq> [] \<Longrightarrow> \<forall>c \<in> set ds. is_digit c \<Longrightarrow> digit_groups ds"
  by (induction ds rule: digit_groups.induct) (auto simp: is_digit_not_special)

lemma py_strip_digits:
  assumes "\<forall>c \<in> set ds. is_digit c"
  shows "py_strip ds = ds"
proof (cases ds rule: rev_cases)
  case Nil
  then show ?thesis by (simp add: py_strip_def)
next
  case (snoc bs b)
  with assms have "\<not> is_space b" by (simp add: is_digit_not_special)
  with snoc have "dropWhile is_space (rev ds) = rev ds" by simp
  moreover have "dropWhile is_space ds = ds"
    using assms by (cases ds) (simp_all add: is_digit_not_special)
  ultimately show ?thesis by (simp add: py_strip_def)
qed

lemma py_int_digits:
  assumes "ds \<noteq> []" and "\<forall>c \<in> set ds. is_digit c"
  shows "py_int ds = Inr (int (parse_nat ds))"
proof -
  from assms have hd: "hd ds \<noteq> CHR ''-''" "hd ds \<noteq> CHR ''+''"
    by (cases ds; simp add: is_digit_not_special)+
  have "filter is_digit ds = ds"
    using assms(2) by simp
  then show ?thesis
    using hd digit_groups_digits [OF assms] py_strip_digits [OF assms(2)]
    by (simp add: py_int_def)
qed

lemma py_split_absent: "sep \<notin> set a \<Longrightarrow> py_split sep a = [a]"
  by (induction a) auto

lemma py_split_first: "sep \<notin> set a \<Longrightarrow> py_split sep (a @ sep # b) = a # py_split sep b"
  by (induction a) auto

lemma carry_up_spec:
  "carry_up mm y = (a, b) \<Longrightarrow>
     a + 12 * b = mm + 12 * y \<and> (if mm > 12 then 1 \<le> a \<and> a \<le> 12 else a = mm \<and> b = y)"
proof (induction mm y rule: carry_up.induct)
  case (1 mm y)
  show ?case
  proof (cases "mm > 12")
    case False
    with 1(2) show ?thesis by (subst (asm) carry_up.simps) simp
  next
    case True
    with 1(2) have "carry_up (mm - 12) (y + 1) = (a, b)"
      by (subst (asm) carry_up.simps) simp
    from 1(1) [OF True this] True show ?thesis
      by (simp split: if_splits)
  qed
qed

lemma carry_down_spec:
  "carry_down mm y = (a, b) \<Longrightarrow>
     a + 12 * b = mm + 12 * y \<and> (if mm < 1 then 1 \<le> a \<and> a \<le> 12 else a = mm \<and> b = y)"
proof (induction mm y rule: carry_down.induct)
  case (1 mm y)
  show ?case
  proof (cases "mm < 1")
    case False
    with 1(2) show ?thesis by (subst (asm) carry_down.simps) simp
  next
    case True
    with 1(2) have "carry_down (mm + 12) (y - 1) = (a, b)"
      by (subst (asm) carry_down.simps) simp
    from 1(1) [OF True this] True show ?thesis
      by (simp split: if_splits)
  qed
qed

lemma carry_both:
  assumes "carry_up mm y = (mm1, y1)" and "carry_down mm1 y1 = (mm2, y2)"
  shows "mm2 + 12 * y2 = mm + 12 * y \<and> 1 \<le> mm2 \<and> mm2 \<le> 12"
  using carry_up_spec [OF assms(1)] carry_down_spec [OF assms(2)]
  by (simp split: if_splits)

definition is_month_string :: "string \<Rightarrow> bool" where
  "is_month_string m =
     (length m = 7 \<and> (\<forall>c \<in> set (take 4 m). is_digit c) \<and> m ! 4 = CHR ''-'' \<and>
      (\<forall>c \<in> set (drop 5 m). is_digit c) \<and>
      1 \<le> parse_nat (drop 5 m) \<and> parse_nat (drop 5 m) \<le> 12)"

definition month_index :: "string \<Rightarrow> int" where
  "month_index m = 12 * int (parse_nat (take 4 m)) + int (parse_nat (drop 5 m)) - 1"

lemma fmt0_nonneg:
  assumes "0 \<le> i" and "0 < w"
  shows "fmt0 w i = zpad w (digs (nat i))"
    and "fmt0 w i \<noteq> []"
    and "\<forall>c \<in> set (fmt0 w i). is_digit c"
    and "parse_nat (fmt0 w i) = nat i"
proof -
  from assms(1) have f: "fmt0 w i = zpad w (str_nat (nat i))"
    by (simp add: fmt0_def)
  show "fmt0 w i = zpad w (digs (nat i))"
    using f zpad_str_nat [OF assms(2)] by simp
  show "fmt0 w i \<noteq> []"
    using f zpad_nonempty [OF str_nat_nonempty] by simp
  show "\<forall>c \<in> set (fmt0 w i). is_digit c"
    using f zpad_digits [OF str_nat_digits] by simp
  show "parse_nat (fmt0 w i) = nat i"
    using f by (simp add: parse_nat_zpad parse_nat_str_nat)
qed

lemma month_add_digits:
  assumes "ys \<noteq> []" and "\<forall>c \<in> set ys. is_digit c"
    and "ms \<noteq> []" and "\<forall>c \<in> set ms. is_digit c"
  shows "\<exists>mm2 y2. month_add (ys @ CHR ''-'' # ms) n = Inr (fmt0 4 y2 @ CHR ''-'' # fmt0 2 mm2) \<and>
           mm2 + 12 * y2 = int (parse_nat ms) + n + 12 * int (parse_nat ys) \<and>
           1 \<le> mm2 \<and> mm2 \<le> 12"
proof -
  have "CHR ''-'' \<notin> set ys" and "CHR ''-'' \<notin> set ms"
    using assms(2,4) is_digit_not_special(2) by blast+
  then have sp: "py_split (CHR ''-'') (ys @ CHR ''-'' # ms) = [ys, ms]"
    by (simp add: py_split_first py_split_absent)
  obtain mm1 y1 where up: "carry_up (int (parse_nat ms) + n) (int (parse_nat ys)) = (mm1, y1)"
    by (cases "carry_up (int (parse_nat ms) + n) (int (parse_nat ys))")
  obtain mm2 y2 where down: "carry_down mm1 y1 = (mm2, y2)"
    by (cases "carry_down mm1 y1")
  have "month_add (ys @ CHR ''-'' # ms) n = Inr (fmt0 4 y2 @ CHR ''-'' # fmt0 2 mm2)"
    using sp up down py_int_digits [OF assms(1,2)] py_int_digits [OF assms(3,4)]
    by (simp add: month_add_def bind_res_def)
  with carry_both [OF up down] show ?thesis
    by blast
qed

lemma month_string_parts:
  assumes "is_month_string m"
  shows "m = take 4 m @ CHR ''-'' # drop 5 m"
    and "length (take 4 m) = 4" and "length (drop 5 m) = 2"
proof -
  from assms have len: "length m = 7" and dash: "m ! 4 = CHR ''-''"
    by (simp_all add: is_month_string_def)
  from len have "m = take 4 m @ m ! 4 # drop (Suc 4) m"
    by (intro id_take_nth_drop) simp
  with dash show "m = take 4 m @ CHR ''-'' # drop 5 m" by simp
  from len show "length (take 4 m) = 4" and "length (drop 5 m) = 2" by simp_all
qed

text \<open>
  C7 (as the code has it). For a month string of the form \<open>YYYY-MM\<close> with a month from
  01 to 12, and a number of months \<open>n\<close> that does not lead before year 0, adding \<open>n\<close> months
  and then \<open>- n\<close> months returns the original string; both calls return.
\<close>

theorem month_add_roundtrip:
  assumes "is_month_string m" and "0 \<le> month_index m + n"
  shows "bind_res (month_add m n) (\<lambda>m'. month_add m' (- n)) = Inr m"
proof -
  define ys where "ys = take 4 m"
  define ms where "ms = drop 5 m"
  have m: "m = ys @ CHR ''-'' # ms" and lys: "length ys = 4" and lms: "length ms = 2"
    using month_string_parts [OF assms(1)] by (simp_all add: ys_def ms_def)
  have dys: "\<forall>c \<in> set ys. is_digit c" and dms: "\<forall>c \<in> set ms. is_digit c"
    and lo: "1 \<le> parse_nat ms" and hi: "parse_nat ms \<le> 12"
    using assms(1) by (simp_all add: is_month_string_def ys_def ms_def)
  have ne: "ys \<noteq> []" "ms \<noteq> []"
    using lys lms by auto
  from month_add_digits [OF ne(1) dys ne(2) dms, of n] obtain mm2 y2 where
    r1: "month_add m n = Inr (fmt0 4 y2 @ CHR ''-'' # fmt0 2 mm2)"
    and s1: "mm2 + 12 * y2 = int (parse_nat ms) + n + 12 * int (parse_nat ys)"
    and b1: "1 \<le> mm2" "mm2 \<le> 12"
    unfolding m by blast
  from assms(2) have "0 \<le> 12 * int (parse_nat ys) + int (parse_nat ms) - 1 + n"
    by (simp add: month_index_def ys_def ms_def)
  with s1 b1 have y2: "0 \<le> y2" by arith
  from b1 have mm2: "0 \<le> mm2" by simp
  from month_add_digits [OF fmt0_nonneg(2) fmt0_nonneg(3) fmt0_nonneg(2) fmt0_nonneg(3),
      of y2 4 mm2 2 "- n"] y2 mm2
  obtain mm3 y3 where
    r2: "month_add (fmt0 4 y2 @ CHR ''-'' # fmt0 2 mm2) (- n) = Inr (fmt0 4 y3 @ CHR ''-'' # fmt0 2 mm3)"
    and s2: "mm3 + 12 * y3 = int (parse_nat (fmt0 2 mm2)) + (- n) + 12 * int (parse_nat (fmt0 4 y2))"
    and b2: "1 \<le> mm3" "mm3 \<le> 12"
    by auto
  have "int (parse_nat (fmt0 2 mm2)) = mm2" and "int (parse_nat (fmt0 4 y2)) = y2"
    using fmt0_nonneg(4) [OF mm2, of 2] fmt0_nonneg(4) [OF y2, of 4] mm2 y2 by simp_all
  with s1 s2 have "mm3 + 12 * y3 = int (parse_nat ms) + 12 * int (parse_nat ys)"
    by simp
  moreover have "1 \<le> int (parse_nat ms)" and "int (parse_nat ms) \<le> 12"
    using lo hi by simp_all
  ultimately have y3: "y3 = int (parse_nat ys)"
    using b2 by arith
  with \<open>mm3 + 12 * y3 = int (parse_nat ms) + 12 * int (parse_nat ys)\<close>
  have mm3: "mm3 = int (parse_nat ms)"
    by simp
  have "fmt0 4 y3 = ys"
    using fmt0_nonneg(1) [of y3 4] zpad_digs_parse [OF dys] lys y3 by simp
  moreover have "fmt0 2 mm3 = ms"
    using fmt0_nonneg(1) [of mm3 2] zpad_digs_parse [OF dms] lms mm3 by simp
  ultimately show ?thesis
    using r1 r2 m by (simp add: bind_res_def)
qed

theorem month_add_roundtrip_witness:
  "is_month_string ''2024-03'' \<and> 0 \<le> month_index ''2024-03'' + (- 27) \<and>
   bind_res (month_add ''2024-03'' (- 27)) (\<lambda>m'. month_add m' (- (- 27))) = Inr ''2024-03''"
proof -
  have s: "is_month_string ''2024-03''"
    by (simp add: is_month_string_def is_digit_def parse_nat_def digit_val_def)
  have i: "0 \<le> month_index ''2024-03'' + (- 27)"
    by (simp add: month_index_def parse_nat_def digit_val_def)
  from month_add_roundtrip [OF s i] s i show ?thesis
    by simp
qed

text \<open>
  C7 (as the specification states it) fails when the first call leads before year 0: the result
  then starts with a minus sign, so the second call splits it into three parts and raises
  \<open>ValueError\<close>.
\<close>

theorem month_add_roundtrip_counterexample:
  "is_month_string ''0001-01'' \<and>
   month_add ''0001-01'' (- 13) = Inr ''-001-12'' \<and>
   month_add ''-001-12'' (- (- 13)) = Inl ValueError"
proof -
  have s: "is_month_string ''0001-01''"
    by (simp add: is_month_string_def is_digit_def parse_nat_def digit_val_def)
  have a: "month_add ''0001-01'' (- 13) = Inr ''-001-12''"
    by code_simp
  have b: "month_add ''-001-12'' 13 = Inl ValueError"
    by code_simp
  from s a b show ?thesis
    by simp
qed

section \<open>Catalog data and cross-reference maps\<close>

text \<open>
  The responses of the catalog and usage services are the inputs of the model (record
  \<open>api\<close>); transport failures end the program in \<^verbatim>\<open>checkresponse\<close> and are not
  part of it. Numbers of the usage feed are modelled as reals; the rounding of Python's
  floats is not modelled. \<^verbatim>\<open>listAccountGroups\<close> stores the root contract and the path
  in every group; it returns only if both resolutions return for every group.
\<close>

record agroup = group +
  contractId :: "string option"
  path :: "string list"

fun resolve_groups :: "group list \<Rightarrow> group list \<Rightarrow> agroup list option" where
  "resolve_groups groups [] = Some []"
| "resolve_groups groups (g # gs) =
     (case rootContract g groups of
        None \<Rightarrow> None
      | Some c \<Rightarrow>
          (case groupPath (groupId g) groups of
             None \<Rightarrow> None
           | Some p \<Rightarrow>
               (case resolve_groups groups gs of
                  None \<Rightarrow> None
                | Some rest \<Rightarrow> Some (group.extend g \<lparr>contractId = c, path = p\<rparr> # rest))))"

definition listAccountGroups :: "group list \<Rightarrow> agroup list option" where
  "listAccountGroups groups = resolve_groups groups groups"

record cpcode =
  cpcodeId :: int
  cpcodeName :: string
  accessGroup_contractId :: string
  contracts_status :: "string list"
  products_productId :: "string list"

record repgroup =
  reportingGroupName :: string
  contracts_cpcodes :: "int list list"

record cpCodeStat =
  cpCode :: int
  stats :: "(string \<times> real) list"

type_synonym usage = "cpCodeStat list list"

record api =
  listContracts :: "string list"
  listCpCodes :: "cpcode list"
  listGroups :: "group list"
  listCpCodesOfGroup :: "string \<Rightarrow> string \<Rightarrow> string list"
  listRepGroups :: "repgroup list"
  usageByCpCode :: "string \<Rightarrow> string \<Rightarrow> string \<Rightarrow> string \<Rightarrow> usage option"

fun dict_set :: "('k \<times> 'v) list \<Rightarrow> 'k \<Rightarrow> 'v \<Rightarrow> ('k \<times> 'v) list" where
  "dict_set [] k v = [(k, v)]"
| "dict_set ((k', v') # d) k v =
     (if k' = k then (k, v) # d else (k', v') # dict_set d k v)"

definition createMapCpcodeRepGroup :: "repgroup list \<Rightarrow> (int \<rightharpoonup> repgroup list)" where
  "createMapCpcodeRepGroup repgroups =
     foldl (\<lambda>m rg.
        foldl (\<lambda>m contract.
           foldl (\<lambda>m cpcodeId.
              m(cpcodeId \<mapsto> (case m cpcodeId of None \<Rightarrow> [] | Some rs \<Rightarrow> rs) @ [rg]))
             m contract)
          m (contracts_cpcodes rg))
       Map.empty repgroups"

record cpstat =
  st_cpcode :: int
  st_hits :: "real option"
  st_gb :: "real option"

definition stat_of :: "cpCodeStat \<Rightarrow> cpstat" where
  "stat_of stat =
     (case foldl (\<lambda>(gb, hits) (statType, v).
               if statType = ''Bytes'' then (Some v, hits)
               else if statType = ''Hits'' then (gb, Some v)
               else (gb, hits))
             (None, None) (stats stat) of
        (gb, hits) \<Rightarrow> \<lparr>st_cpcode = cpCode stat, st_hits = hits, st_gb = gb\<rparr>)"

definition getUsageByCpCode ::
  "api \<Rightarrow> string \<Rightarrow> string \<Rightarrow> string \<Rightarrow> py_error + usage option" where
  "getUsageByCpCode a cid productId start =
     bind_res (month_add start 1) (\<lambda>end. Inr (usageByCpCode a cid productId start end))"

definition getCpStatistics ::
  "api \<Rightarrow> string \<Rightarrow> string \<Rightarrow> string \<Rightarrow> py_error + cpstat list" where
  "getCpStatistics a contract product month =
     bind_res (getUsageByCpCode a contract product month) (\<lambda>usage.
       case usage of
         None \<Rightarrow> Inr []
       | Some usagePeriods \<Rightarrow> Inr (concat (map (map stat_of) usagePeriods)))"


section \<open>Reconciliation engine\<close>

text \<open>
  The local variable \<^verbatim>\<open>cpcodeId\<close> of \<^verbatim>\<open>cptrafficPerMonth\<close> is bound by three loops in
  turn: to a contract item (line 190), to a CP code id read from a group (line 208) and to
  the CP code id of a usage statistic (line 221). Line 241 reads it after the inner loop.
\<close>

datatype pyvar = Unbound | ContractItem string | CpcodeId int

record xref =
  cpcodeMap :: "(int \<times> cpcode) list"
  mapCpcodeAccgroup :: "int \<rightharpoonup> int list"
  groupmap :: "int \<rightharpoonup> agroup"
  mapCpcodeRepgroup :: "int \<rightharpoonup> repgroup list"

text \<open>
  A report row. \<open>row_hits = None\<close> is a row without the key \<^verbatim>\<open>"hits"\<close>;
  \<open>row_hits = Some None\<close> is a row whose key \<^verbatim>\<open>"hits"\<close> holds Python's \<^verbatim>\<open>None\<close>.
\<close>

record row =
  row_contract :: string
  row_cpcode :: int
  row_name :: string
  row_groupPath :: "string list"
  row_repGroups :: "string list"
  row_hits :: "real option option"
  row_gb :: "real option option"

fun cpcodes_of_group_loop ::
  "int \<Rightarrow> string list \<Rightarrow> (int \<rightharpoonup> int list) \<times> pyvar \<Rightarrow>
     py_error + (int \<rightharpoonup> int list) \<times> pyvar" where
  "cpcodes_of_group_loop gid [] st = Inr st"
| "cpcodes_of_group_loop gid (cpi # cpis) (m, v) =
     (case py_int cpi of
        Inl e \<Rightarrow> Inl e
      | Inr c \<Rightarrow>
          cpcodes_of_group_loop gid cpis
            (m(c \<mapsto> (case m c of Some gs \<Rightarrow> gs @ [gid] | None \<Rightarrow> [gid])), CpcodeId c))"

fun groups_loop ::
  "api \<Rightarrow> agroup list \<Rightarrow> (int \<rightharpoonup> agroup) \<times> (int \<rightharpoonup> int list) \<times> pyvar \<Rightarrow>
     py_error + (int \<rightharpoonup> agroup) \<times> (int \<rightharpoonup> int list) \<times> pyvar" where
  "groups_loop a [] st = Inr st"
| "groups_loop a (grp # grps) (gm, m, v) =
     (case py_int (py_replace (groupId grp) ''grp_'' []) of
        Inl e \<Rightarrow> Inl e
      | Inr gid \<Rightarrow>
          (case contractId grp of
             None \<Rightarrow> Inl AttributeError
           | Some c \<Rightarrow>
               (case cpcodes_of_group_loop gid
                       (listCpCodesOfGroup a (py_replace c ''ctr_'' []) (groupId grp)) (m, v) of
                  Inl e \<Rightarrow> Inl e
                | Inr (m', v') \<Rightarrow> groups_loop a grps (gm(gid \<mapsto> grp), m', v'))))"

fun firstLevel_loop ::
  "(int \<rightharpoonup> agroup) \<Rightarrow> int list \<Rightarrow> string list \<Rightarrow> py_error + string list" where
  "firstLevel_loop gm [] gp = Inr gp"
| "firstLevel_loop gm (gid # gids) gp =
     (case gm gid of
        None \<Rightarrow> Inl KeyError
      | Some g \<Rightarrow>
          firstLevel_loop gm gids
            (if length (path g) = 2 then gp @ [path g ! 1] else gp))"

definition repgroupnames :: "xref \<Rightarrow> int \<Rightarrow> string list" where
  "repgroupnames x c =
     (case mapCpcodeRepgroup x c of None \<Rightarrow> [] | Some rs \<Rightarrow> map reportingGroupName rs)"

definition usage_row :: "xref \<Rightarrow> cpstat \<Rightarrow> py_error + row" where
  "usage_row x cpstat =
     (let c = st_cpcode cpstat in
      case map_of (cpcodeMap x) c of
        None \<Rightarrow> Inl KeyError
      | Some cp \<Rightarrow>
          (case mapCpcodeAccgroup x c of
             None \<Rightarrow> Inl KeyError
           | Some gids \<Rightarrow>
               bind_res (firstLevel_loop (groupmap x) gids []) (\<lambda>gp.
                 Inr \<lparr>row_contract = py_replace (accessGroup_contractId cp) ''ctr_'' [],
                      row_cpcode = c, row_name = cpcodeName cp, row_groupPath = gp,
                      row_repGroups = repgroupnames x c,
                      row_hits = Some (st_hits cpstat), row_gb = Some (st_gb cpstat)\<rparr>)))"

fun cpstats_loop ::
  "xref \<Rightarrow> cpstat list \<Rightarrow> row list \<times> pyvar \<Rightarrow> py_error + row list \<times> pyvar" where
  "cpstats_loop x [] st = Inr st"
| "cpstats_loop x (cpstat # rest) (traffic, v) =
     (case usage_row x cpstat of
        Inl e \<Rightarrow> Inl e
      | Inr r \<Rightarrow> cpstats_loop x rest (traffic @ [r], CpcodeId (st_cpcode cpstat)))"

definition add_var :: "pyvar \<Rightarrow> int set \<Rightarrow> py_error + int set" where
  "add_var v added =
     (case v of
        Unbound \<Rightarrow> Inl UnboundLocalError
      | ContractItem c \<Rightarrow> Inl TypeError
      | CpcodeId c \<Rightarrow> Inr (insert c added))"

fun contracts_loop ::
  "api \<Rightarrow> xref \<Rightarrow> string \<Rightarrow> string \<Rightarrow> string list \<Rightarrow> row list \<times> int set \<times> pyvar \<Rightarrow>
     py_error + row list \<times> int set \<times> pyvar" where
  "contracts_loop a x productId month [] st = Inr st"
| "contracts_loop a x productId month (contract # rest) (traffic, added, v) =
     (case getCpStatistics a (py_replace contract ''ctr_'' []) productId month of
        Inl e \<Rightarrow> Inl e
      | Inr cpstats \<Rightarrow>
          (case cpstats_loop x cpstats (traffic, v) of
             Inl e \<Rightarrow> Inl e
           | Inr (traffic', v') \<Rightarrow>
               (case add_var v' added of
                  Inl e \<Rightarrow> Inl e
                | Inr added' \<Rightarrow>
                    contracts_loop a x productId month rest (traffic', added', v'))))"

definition DELIVERY_PRODUCTS :: "string list" where
  "DELIVERY_PRODUCTS = [''Site_Accel::Site_Accel'']"

definition validContract :: "cpcode \<Rightarrow> bool" where
  "validContract cp = list_ex (\<lambda>status. status = ''ongoing'') (contracts_status cp)"

definition validProduct :: "cpcode \<Rightarrow> bool" where
  "validProduct cp = list_ex (\<lambda>p. p \<in> set DELIVERY_PRODUCTS) (products_productId cp)"

definition notraffic_row :: "xref \<Rightarrow> int \<Rightarrow> cpcode \<Rightarrow> py_error + row" where
  "notraffic_row x c cp =
     (case mapCpcodeAccgroup x c of
        None \<Rightarrow> Inl KeyError
      | Some gids \<Rightarrow>
          bind_res (firstLevel_loop (groupmap x) gids []) (\<lambda>gp.
            Inr \<lparr>row_contract = py_replace (accessGroup_contractId cp) ''ctr_'' [],
                 row_cpcode = c, row_name = cpcodeName cp, row_groupPath = gp,
                 row_repGroups = repgroupnames x c,
                 row_hits = None, row_gb = None\<rparr>))"

fun notraffic_loop ::
  "xref \<Rightarrow> (int \<times> cpcode) list \<Rightarrow> row list \<times> int set \<Rightarrow> py_error + row list \<times> int set" where
  "notraffic_loop x [] st = Inr st"
| "notraffic_loop x ((c, cp) # rest) (traffic, added) =
     (if c \<notin> added then
        (if \<not> validContract cp then notraffic_loop x rest (traffic, added)
         else if \<not> validProduct cp then notraffic_loop x rest (traffic, added)
         else (case notraffic_row x c cp of
                 Inl e \<Rightarrow> Inl e
               | Inr r \<Rightarrow> notraffic_loop x rest (traffic @ [r], insert c added)))
      else notraffic_loop x rest (traffic, insert c added))"

definition build_contractMap :: "string list \<Rightarrow> (string \<times> string) list" where
  "build_contractMap items = foldl (\<lambda>d c. dict_set d c c) [] items"

definition build_cpcodeMap :: "cpcode list \<Rightarrow> (int \<times> cpcode) list" where
  "build_cpcodeMap cpcodes = foldl (\<lambda>d cp. dict_set d (cpcodeId cp) cp) [] cpcodes"

definition engine ::
  "api \<Rightarrow> agroup list \<Rightarrow> string \<Rightarrow> string \<Rightarrow> bool \<Rightarrow> py_error + row list" where
  "engine a accountGroups productId month includeNoTraffic =
     (let contractMap = build_contractMap (listContracts a);
          v0 = (if listContracts a = [] then Unbound else ContractItem (last (listContracts a)));
          cm = build_cpcodeMap (listCpCodes a)
      in bind_res (groups_loop a accountGroups (Map.empty, Map.empty, v0)) (\<lambda>(gm, am, v1).
           let x = \<lparr>cpcodeMap = cm, mapCpcodeAccgroup = am, groupmap = gm,
                    mapCpcodeRepgroup = createMapCpcodeRepGroup (listRepGroups a)\<rparr>
           in bind_res (contracts_loop a x productId month (map fst contractMap) ([], {}, v1))
                (\<lambda>(traffic, added, v2).
                   if \<not> includeNoTraffic
                   then bind_res (notraffic_loop x cm (traffic, added)) (\<lambda>(traffic', added'). Inr traffic')
                   else Inr traffic)))"

definition cptrafficPerMonth ::
  "api \<Rightarrow> string \<Rightarrow> string \<Rightarrow> bool \<Rightarrow> (py_error + row list) option" where
  "cptrafficPerMonth a productId month includeNoTraffic =
     (case listAccountGroups (listGroups a) of
        None \<Rightarrow> None
      | Some accountGroups \<Rightarrow> Some (engine a accountGroups productId month includeNoTraffic))"

section \<open>First-level group names\<close>






section \<open>Rows of the reconciliation engine\<close>

lemma dict_set_keys: "fst ` set (dict_set d k v) = insert k (fst ` set d)"
  by (induction d k v rule: dict_set.induct) auto

lemma dict_set_distinct: "distinct (map fst d) \<Longrightarrow> distinct (map fst (dict_set d k v))"
proof (induction d k v rule: dict_set.induct)
  case (1 k v)
  then show ?case by simp
next
  case (2 k' v' d k v)
  then show ?case
    using dict_set_keys [of d k v] by (auto simp: image_iff)
qed

lemma foldl_dict_set_distinct:
  "distinct (map fst d) \<Longrightarrow> distinct (map fst (foldl (\<lambda>d x. dict_set d (f x) (g x)) d xs))"
  by (induction xs arbitrary: d) (simp_all add: dict_set_distinct)

lemma build_cpcodeMap_distinct: "distinct (map fst (build_cpcodeMap cpcodes))"
  unfolding build_cpcodeMap_def by (rule foldl_dict_set_distinct) simp

definition catalog_contract :: "(int \<times> cpcode) list \<Rightarrow> row \<Rightarrow> bool" where
  "catalog_contract cm r =
     (case map_of cm (row_cpcode r) of
        None \<Rightarrow> False
      | Some cp \<Rightarrow> row_contract r = py_replace (accessGroup_contractId cp) ''ctr_'' [])"

lemma usage_row_props:
  assumes "usage_row x st = Inr r"
  shows "row_cpcode r = st_cpcode st" and "row_hits r \<noteq> None" and "catalog_contract (cpcodeMap x) r"
  using assms
  by (auto simp: usage_row_def bind_res_def catalog_contract_def Let_def
           split: option.splits sum.splits)

lemma notraffic_row_props:
  assumes "notraffic_row x c cp = Inr r"
  shows "row_cpcode r = c" and "row_hits r = None"
    and "row_contract r = py_replace (accessGroup_contractId cp) ''ctr_'' []"
  using assms
  by (auto simp: notraffic_row_def bind_res_def split: option.splits sum.splits)

lemma cpstats_loop_rows:
  "cpstats_loop x sts (t, v) = Inr (t', v') \<Longrightarrow>
     \<exists>rs. t' = t @ rs \<and> map row_cpcode rs = map st_cpcode sts \<and>
          (\<forall>r \<in> set rs. row_hits r \<noteq> None \<and> catalog_contract (cpcodeMap x) r)"
proof (induction sts arbitrary: t v)
  case Nil
  then show ?case by simp
next
  case (Cons st sts)
  from Cons.prems obtain r where r: "usage_row x st = Inr r"
    and rest: "cpstats_loop x sts (t @ [r], CpcodeId (st_cpcode st)) = Inr (t', v')"
    by (auto split: sum.splits)
  from Cons.IH [OF rest] obtain rs where
    rs: "t' = (t @ [r]) @ rs" "map row_cpcode rs = map st_cpcode sts"
      "\<forall>r \<in> set rs. row_hits r \<noteq> None \<and> catalog_contract (cpcodeMap x) r"
    by blast
  have "t' = t @ (r # rs)" using rs(1) by simp
  moreover have "map row_cpcode (r # rs) = map st_cpcode (st # sts)"
    using rs(2) usage_row_props(1) [OF r] by simp
  moreover have "\<forall>q \<in> set (r # rs). row_hits q \<noteq> None \<and> catalog_contract (cpcodeMap x) q"
    using rs(3) usage_row_props(2,3) [OF r] by simp
  ultimately show ?case by blast
qed

definition stat_cpcodes :: "api \<Rightarrow> string \<Rightarrow> string \<Rightarrow> string \<Rightarrow> int list" where
  "stat_cpcodes a productId month contract =
     (case getCpStatistics a (py_replace contract ''ctr_'' []) productId month of
        Inl e \<Rightarrow> []
      | Inr cpstats \<Rightarrow> map st_cpcode cpstats)"

lemma contracts_loop_rows:
  "contracts_loop a x productId month cs (t, ad, v) = Inr (t', ad', v') \<Longrightarrow>
     \<exists>rs. t' = t @ rs \<and>
          map row_cpcode rs = concat (map (stat_cpcodes a productId month) cs) \<and>
          (\<forall>r \<in> set rs. row_hits r \<noteq> None \<and> catalog_contract (cpcodeMap x) r)"
proof (induction cs arbitrary: t ad v)
  case Nil
  then show ?case by simp
next
  case (Cons c cs)
  from Cons.prems obtain sts t1 v1 ad1 where
    sts: "getCpStatistics a (py_replace c ''ctr_'' []) productId month = Inr sts"
    and inner: "cpstats_loop x sts (t, v) = Inr (t1, v1)"
    and rest: "contracts_loop a x productId month cs (t1, ad1, v1) = Inr (t', ad', v')"
    by (auto split: sum.splits)
  from cpstats_loop_rows [OF inner] obtain rs1 where
    rs1: "t1 = t @ rs1" "map row_cpcode rs1 = map st_cpcode sts"
      "\<forall>r \<in> set rs1. row_hits r \<noteq> None \<and> catalog_contract (cpcodeMap x) r"
    by blast
  from Cons.IH [OF rest] obtain rs2 where
    rs2: "t' = t1 @ rs2"
      "map row_cpcode rs2 = concat (map (stat_cpcodes a productId month) cs)"
      "\<forall>r \<in> set rs2. row_hits r \<noteq> None \<and> catalog_contract (cpcodeMap x) r"
    by blast
  have "t' = t @ (rs1 @ rs2)" using rs1(1) rs2(1) by simp
  moreover have "map row_cpcode (rs1 @ rs2) = concat (map (stat_cpcodes a productId month) (c # cs))"
    using rs1(2) rs2(2) sts by (simp add: stat_cpcodes_def)
  moreover have "\<forall>r \<in> set (rs1 @ rs2). row_hits r \<noteq> None \<and> catalog_contract (cpcodeMap x) r"
    using rs1(3) rs2(3) by auto
  ultimately show ?case by blast
qed

lemma notraffic_loop_rows:
  "notraffic_loop x kvs (t, ad) = Inr (t', ad') \<Longrightarrow>
     \<exists>rs. t' = t @ rs \<and> set (map row_cpcode rs) \<subseteq> fst ` set kvs \<and>
          (distinct (map fst kvs) \<longrightarrow> distinct (map row_cpcode rs)) \<and>
          (\<forall>r \<in> set rs. row_hits r = None \<and>
             (\<exists>cp. (row_cpcode r, cp) \<in> set kvs \<and>
                   row_contract r = py_replace (accessGroup_contractId cp) ''ctr_'' []))"
proof (induction kvs arbitrary: t ad)
  case Nil
  then show ?case by simp
next
  case (Cons kv kvs)
  obtain c cp where kv: "kv = (c, cp)" by (cases kv)
  consider (skip) ad1 where "notraffic_loop x kvs (t, ad1) = Inr (t', ad')"
    | (emit) r ad1 where "notraffic_row x c cp = Inr r"
        "notraffic_loop x kvs (t @ [r], ad1) = Inr (t', ad')"
    using Cons.prems unfolding kv by (auto split: if_splits sum.splits)
  then show ?case
  proof cases
    case skip
    from Cons.IH [OF skip] show ?thesis
      unfolding kv by fastforce
  next
    case emit
    from Cons.IH [OF emit(2)] obtain rs where
      rs: "t' = (t @ [r]) @ rs" "set (map row_cpcode rs) \<subseteq> fst ` set kvs"
        "distinct (map fst kvs) \<longrightarrow> distinct (map row_cpcode rs)"
        "\<forall>r \<in> set rs. row_hits r = None \<and>
             (\<exists>cp. (row_cpcode r, cp) \<in> set kvs \<and>
                   row_contract r = py_replace (accessGroup_contractId cp) ''ctr_'' [])"
      by blast
    note p = notraffic_row_props [OF emit(1)]
    have "t' = t @ (r # rs)" using rs(1) by simp
    moreover have "set (map row_cpcode (r # rs)) \<subseteq> fst ` set (kv # kvs)"
      using rs(2) p(1) unfolding kv by auto
    moreover have "distinct (map fst (kv # kvs)) \<longrightarrow> distinct (map row_cpcode (r # rs))"
      using rs(2,3) p(1) unfolding kv by auto
    moreover have "\<forall>q \<in> set (r # rs). row_hits q = None \<and>
             (\<exists>cp. (row_cpcode q, cp) \<in> set (kv # kvs) \<and>
                   row_contract q = py_replace (accessGroup_contractId cp) ''ctr_'' [])"
      using rs(4) p unfolding kv by auto
    ultimately show ?thesis by blast
  qed
qed


lemma engine_rows:
  assumes "engine a ags productId month incl = Inr traffic"
  shows "\<exists>rs1 rs2. traffic = rs1 @ rs2 \<and>
     map row_cpcode rs1 =
       concat (map (stat_cpcodes a productId month) (map fst (build_contractMap (listContracts a)))) \<and>
     (\<forall>r \<in> set rs1. row_hits r \<noteq> None \<and> catalog_contract (build_cpcodeMap (listCpCodes a)) r) \<and>
     distinct (map row_cpcode rs2) \<and>
     (\<forall>r \<in> set rs2. row_hits r = None \<and> catalog_contract (build_cpcodeMap (listCpCodes a)) r)"
proof -
  define cm where "cm = build_cpcodeMap (listCpCodes a)"
  define v0 where
    "v0 = (if listContracts a = [] then Unbound else ContractItem (last (listContracts a)))"
  from assms obtain gm am v1 where
    g: "groups_loop a ags (Map.empty, Map.empty, v0) = Inr (gm, am, v1)"
    by (auto simp: engine_def bind_res_def Let_def v0_def split: sum.splits)
  define x where "x = \<lparr>cpcodeMap = cm, mapCpcodeAccgroup = am, groupmap = gm,
                    mapCpcodeRepgroup = createMapCpcodeRepGroup (listRepGroups a)\<rparr>"
  have xcm: "cpcodeMap x = cm" by (simp add: x_def)
  from assms g obtain t1 ad1 v2 where
    c: "contracts_loop a x productId month (map fst (build_contractMap (listContracts a)))
          ([], {}, v1) = Inr (t1, ad1, v2)"
    and fin: "if \<not> incl
              then bind_res (notraffic_loop x cm (t1, ad1)) (\<lambda>(traffic', added'). Inr traffic') = Inr traffic
              else traffic = t1"
    by (auto simp: engine_def bind_res_def Let_def v0_def x_def cm_def split: sum.splits if_splits)
  from contracts_loop_rows [OF c] have
    r1: "map row_cpcode t1 =
           concat (map (stat_cpcodes a productId month) (map fst (build_contractMap (listContracts a))))"
    and p1: "\<forall>r \<in> set t1. row_hits r \<noteq> None \<and> catalog_contract cm r"
    using xcm by auto
  show ?thesis
  proof (cases incl)
    case True
    with fin have "traffic = t1 @ []" by simp
    with r1 p1 show ?thesis
      unfolding cm_def by (intro exI [of _ t1] exI [of _ "[]"]) simp
  next
    case False
    with fin obtain ad2 where n: "notraffic_loop x cm (t1, ad1) = Inr (traffic, ad2)"
      by (auto simp: bind_res_def split: sum.splits)
    have dist: "distinct (map fst cm)"
      unfolding cm_def by (rule build_cpcodeMap_distinct)
    from notraffic_loop_rows [OF n] obtain rs where
      rs: "traffic = t1 @ rs" "distinct (map fst cm) \<longrightarrow> distinct (map row_cpcode rs)"
        "\<forall>r \<in> set rs. row_hits r = None \<and>
             (\<exists>cp. (row_cpcode r, cp) \<in> set cm \<and>
                   row_contract r = py_replace (accessGroup_contractId cp) ''ctr_'' [])"
      by blast
    have "\<forall>r \<in> set rs. row_hits r = None \<and> catalog_contract cm r"
    proof
      fix r assume "r \<in> set rs"
      with rs(3) obtain cp where "row_hits r = None" "(row_cpcode r, cp) \<in> set cm"
        "row_contract r = py_replace (accessGroup_contractId cp) ''ctr_'' []"
        by blast
      moreover from this(2) dist have "map_of cm (row_cpcode r) = Some cp"
        by simp
      ultimately show "row_hits r = None \<and> catalog_contract cm r"
        by (simp add: catalog_contract_def)
    qed
    with rs(1,2) dist r1 p1 show ?thesis
      unfolding cm_def by (intro exI [of _ t1] exI [of _ rs]) simp
  qed
qed

lemma cptrafficPerMonth_engine:
  assumes "cptrafficPerMonth a productId month incl = Some res"
  shows "\<exists>ags. listAccountGroups (listGroups a) = Some ags \<and> res = engine a ags productId month incl"
  using assms by (auto simp: cptrafficPerMonth_def split: option.splits)

text \<open>
  C4. In every run that returns, the contract of every row, and so of every row emitted
  for a usage statistic, is the contract id of the \<open>accessGroup\<close> of the entity's catalog
  entry with the text \<open>ctr_\<close> removed; it does not depend on the contract under which the
  usage was fetched.
\<close>

theorem row_contract_from_catalog:
  assumes "cptrafficPerMonth a productId month includeNoTraffic = Some (Inr traffic)"
    and "r \<in> set traffic"
  shows "\<exists>cp. map_of (build_cpcodeMap (listCpCodes a)) (row_cpcode r) = Some cp \<and>
              row_contract r = py_replace (accessGroup_contractId cp) ''ctr_'' []"
proof -
  from cptrafficPerMonth_engine [OF assms(1)] obtain ags where
    "engine a ags productId month includeNoTraffic = Inr traffic"
    by auto
  from engine_rows [OF this] assms(2)
  have "catalog_contract (build_cpcodeMap (listCpCodes a)) r"
    by auto
  then show ?thesis
    by (simp add: catalog_contract_def split: option.splits)
qed

definition usage_cpcodes :: "api \<Rightarrow> string \<Rightarrow> string \<Rightarrow> int list" where
  "usage_cpcodes a productId month =
     concat (map (stat_cpcodes a productId month) (map fst (build_contractMap (listContracts a))))"

text \<open>
  C1 (as the code has it). In every run that returns, the rows that carry statistics are,
  in order, exactly one row for each usage statistic of each contract, so an entity has as
  many such rows as it has usage statistics; and no entity has more than one row without
  statistics.
\<close>

theorem rows_per_usage_statistic:
  assumes "cptrafficPerMonth a productId month includeNoTraffic = Some (Inr traffic)"
  shows "map row_cpcode (filter (\<lambda>r. row_hits r \<noteq> None) traffic) = usage_cpcodes a productId month \<and>
         distinct (map row_cpcode (filter (\<lambda>r. row_hits r = None) traffic))"
proof -
  from cptrafficPerMonth_engine [OF assms(1)] obtain ags where
    "engine a ags productId month includeNoTraffic = Inr traffic"
    by auto
  from engine_rows [OF this] obtain rs1 rs2 where
    t: "traffic = rs1 @ rs2"
    and r1: "map row_cpcode rs1 = usage_cpcodes a productId month"
    and p1: "\<forall>r \<in> set rs1. row_hits r \<noteq> None"
    and d2: "distinct (map row_cpcode rs2)"
    and p2: "\<forall>r \<in> set rs2. row_hits r = None"
    unfolding usage_cpcodes_def by blast
  have "filter (\<lambda>r. row_hits r \<noteq> None) traffic = rs1"
    and "filter (\<lambda>r. row_hits r = None) traffic = rs2"
    using t p1 p2 by (simp_all add: filter_empty_conv)
  with r1 d2 show ?thesis by simp
qed

section \<open>Summary aggregator\<close>

text \<open>
  The loop of the main program over the returned rows (lines 303-324). The bucket table is
  a dictionary in insertion order. \<^verbatim>\<open>row.get("hits", 0)\<close> is the default only for a row
  without the key; for a row whose key holds \<^verbatim>\<open>None\<close> it is \<^verbatim>\<open>None\<close>, and adding
  it to a number raises \<open>TypeError\<close>.
\<close>

record bucket =
  b_hits :: real
  b_gb :: real

type_synonym table = "(string \<times> bucket) list"

definition row_get :: "real option option \<Rightarrow> real \<Rightarrow> real option" where
  "row_get field d = (case field of None \<Rightarrow> Some d | Some v \<Rightarrow> v)"

definition ensure_bucket :: "table \<Rightarrow> string \<Rightarrow> table" where
  "ensure_bucket t name =
     (if name \<in> fst ` set t then t else t @ [(name, \<lparr>b_hits = 0, b_gb = 0\<rparr>)])"

definition bucket_inc :: "string \<Rightarrow> real \<Rightarrow> real \<Rightarrow> string \<times> bucket \<Rightarrow> string \<times> bucket" where
  "bucket_inc name dh dg =
     (\<lambda>(n, b). if n = name then (n, \<lparr>b_hits = b_hits b + dh, b_gb = b_gb b + dg\<rparr>) else (n, b))"

definition bucket_add :: "table \<Rightarrow> string \<Rightarrow> row \<Rightarrow> real \<Rightarrow> py_error + table" where
  "bucket_add t name r k =
     (case row_get (row_hits r) 0 of
        None \<Rightarrow> Inl TypeError
      | Some h \<Rightarrow>
          (case row_get (row_gb r) 0 of
             None \<Rightarrow> Inl TypeError
           | Some g \<Rightarrow> Inr (map (bucket_inc name (k * h) (k * g)) (ensure_bucket t name))))"

fun credit_groups :: "table \<Rightarrow> string list \<Rightarrow> row \<Rightarrow> py_error + table" where
  "credit_groups t [] r = Inr t"
| "credit_groups t (rg # rgs) r =
     (case bucket_add t rg r 1 of Inl e \<Rightarrow> Inl e | Inr t' \<Rightarrow> credit_groups t' rgs r)"

definition sum_row :: "table \<Rightarrow> row \<Rightarrow> py_error + table" where
  "sum_row t r =
     bind_res (credit_groups t (row_repGroups r) r) (\<lambda>t1.
     bind_res (if length (row_repGroups r) = 0 then bucket_add t1 ''#None'' r 1 else Inr t1) (\<lambda>t2.
       if length (row_repGroups r) > 1
       then bucket_add t2 ''#Multiple'' r (- (real (length (row_repGroups r) - 1)))
       else Inr t2))"

fun sumRepGroups :: "table \<Rightarrow> row list \<Rightarrow> py_error + table" where
  "sumRepGroups t [] = Inr t"
| "sumRepGroups t (r # rs) =
     (case sum_row t r of Inl e \<Rightarrow> Inl e | Inr t' \<Rightarrow> sumRepGroups t' rs)"

section \<open>Example runs\<close>

text \<open>
  The scenario of the specification: entity 100 of contract \<open>ctr_1\<close>, member of group
  \<open>grp_2\<close> and of the reporting groups RG1 and RG2, and variations of its usage feed.
\<close>

definition ex_cp100 :: cpcode where
  "ex_cp100 = \<lparr>cpcodeId = 100, cpcodeName = ''Site-A'', accessGroup_contractId = ''ctr_1'',
     contracts_status = [''ongoing''], products_productId = [''Site_Accel::Site_Accel'']\<rparr>"

definition ex_usage100 :: usage where
  "ex_usage100 = [[\<lparr>cpCode = 100, stats = [(''Hits'', 500000), (''Bytes'', 12.5)]\<rparr>]]"

definition ex_api :: api where
  "ex_api = \<lparr>listContracts = [''ctr_1''], listCpCodes = [ex_cp100], listGroups = ex_groups,
     listCpCodesOfGroup = (\<lambda>c g. if g = ''grp_2'' then [''100''] else []),
     listRepGroups = [\<lparr>reportingGroupName = ''RG1'', contracts_cpcodes = [[100]]\<rparr>,
                      \<lparr>reportingGroupName = ''RG2'', contracts_cpcodes = [[100]]\<rparr>],
     usageByCpCode = (\<lambda>c p s e. if c = ''1'' then Some ex_usage100 else None)\<rparr>"

definition ex_row100 :: row where
  "ex_row100 = \<lparr>row_contract = ''1'', row_cpcode = 100, row_name = ''Site-A'',
           row_groupPath = [''Team''], row_repGroups = [''RG1'', ''RG2''],
           row_hits = Some (Some 500000), row_gb = Some (Some 12.5)\<rparr>"

definition ex_api_other :: api where
  "ex_api_other = ex_api\<lparr>listContracts := [''ctr_1'', ''ctr_2''],
     usageByCpCode := (\<lambda>c p s e. if c = ''2'' then Some ex_usage100 else None)\<rparr>"

definition ex_api_both :: api where
  "ex_api_both = ex_api\<lparr>listContracts := [''ctr_1'', ''ctr_2''],
     usageByCpCode := (\<lambda>c p s e. Some ex_usage100)\<rparr>"

definition ex_api_idle :: api where
  "ex_api_idle = ex_api\<lparr>usageByCpCode := (\<lambda>c p s e. None)\<rparr>"

definition ex_api_nogroup :: api where
  "ex_api_nogroup = ex_api\<lparr>listCpCodesOfGroup := (\<lambda>c g. [])\<rparr>"

definition ex_api_unknown :: api where
  "ex_api_unknown = ex_api\<lparr>usageByCpCode :=
     (\<lambda>c p s e. Some [[\<lparr>cpCode = 999, stats = [(''Hits'', 7), (''Bytes'', 1)]\<rparr>]])\<rparr>"

definition ex_api_bytes :: api where
  "ex_api_bytes = ex_api\<lparr>usageByCpCode :=
     (\<lambda>c p s e. Some [[\<lparr>cpCode = 100, stats = [(''Bytes'', 12.5)]\<rparr>]])\<rparr>"

lemma ex_api_both_eval:
  "cptrafficPerMonth ex_api_both ''X'' ''2024-03'' False = Some (Inr [ex_row100, ex_row100])"
  by code_simp

lemma ex_api_other_eval:
  "cptrafficPerMonth ex_api_other ''X'' ''2024-03'' False = Some (Inr [ex_row100])"
  by code_simp

lemma ex_api_other_usage:
  "stat_cpcodes ex_api_other ''X'' ''2024-03'' ''ctr_1'' = [] \<and>
   stat_cpcodes ex_api_other ''X'' ''2024-03'' ''ctr_2'' = [100]"
  by code_simp

text \<open>
  C1 (as the specification states it) fails: entity 100 is in the usage feed of both contracts
  and gets two rows.
\<close>

theorem entity_in_one_row_counterexample:
  "cptrafficPerMonth ex_api_both ''X'' ''2024-03'' False = Some (Inr [ex_row100, ex_row100]) \<and>
   row_cpcode ex_row100 = 100 \<and>
   build_cpcodeMap (listCpCodes ex_api_both) = [(100, ex_cp100)]"
proof -
  have "build_cpcodeMap (listCpCodes ex_api_both) = [(100, ex_cp100)]"
    by code_simp
  then show ?thesis
    using ex_api_both_eval by (simp add: ex_row100_def)
qed

theorem rows_per_usage_statistic_witness:
  "cptrafficPerMonth ex_api_both ''X'' ''2024-03'' False = Some (Inr [ex_row100, ex_row100]) \<and>
   usage_cpcodes ex_api_both ''X'' ''2024-03'' = [100, 100]"
  using rows_per_usage_statistic [OF ex_api_both_eval] ex_api_both_eval by (simp add: ex_row100_def)

theorem row_contract_from_catalog_witness:
  "cptrafficPerMonth ex_api_other ''X'' ''2024-03'' False = Some (Inr [ex_row100]) \<and>
   ex_row100 \<in> set [ex_row100] \<and>
   stat_cpcodes ex_api_other ''X'' ''2024-03'' ''ctr_2'' = [row_cpcode ex_row100] \<and>
   (\<exists>cp. map_of (build_cpcodeMap (listCpCodes ex_api_other)) (row_cpcode ex_row100) = Some cp \<and>
      accessGroup_contractId cp = ''ctr_1'' \<and> row_contract ex_row100 = ''1'')"
proof -
  have m: "ex_row100 \<in> set [ex_row100]" by simp
  have cm: "map_of (build_cpcodeMap (listCpCodes ex_api_other)) 100 = Some ex_cp100"
    by code_simp
  from row_contract_from_catalog [OF ex_api_other_eval m] ex_api_other_eval ex_api_other_usage cm show ?thesis
    by (simp add: ex_row100_def ex_cp100_def)
qed

text \<open>
  C3, at an input where the code departs from it. The first contract has no usage, so
  line 241 puts the value that the group loop left in \<^verbatim>\<open>cpcodeId\<close> into the set of
  emitted entities: entity 100 is absent from the usage feed, has an ongoing contract and
  a delivery product, and is not emitted.
\<close>

theorem notraffic_entity_omitted:
  "usage_cpcodes ex_api_idle ''X'' ''2024-03'' = [] \<and>
   map_of (build_cpcodeMap (listCpCodes ex_api_idle)) 100 = Some ex_cp100 \<and>
   validContract ex_cp100 \<and> validProduct ex_cp100 \<and>
   cptrafficPerMonth ex_api_idle ''X'' ''2024-03'' False = Some (Inr [])"
proof -
  have "usage_cpcodes ex_api_idle ''X'' ''2024-03'' = []" by code_simp
  moreover have "map_of (build_cpcodeMap (listCpCodes ex_api_idle)) 100 = Some ex_cp100"
    by code_simp
  moreover have "validContract ex_cp100" and "validProduct ex_cp100"
    by (simp_all add: validContract_def validProduct_def ex_cp100_def DELIVERY_PRODUCTS_def)
  moreover have "cptrafficPerMonth ex_api_idle ''X'' ''2024-03'' False = Some (Inr [])"
    by code_simp
  ultimately show ?thesis by simp
qed

text \<open>
  C5, at inputs where the code departs from it. Entity 100 is in the catalog and in the
  usage feed, but no group lists it: the lookup of its group membership raises \<open>KeyError\<close>
  and no row is returned. Entity 999 is in the usage feed and not in the catalog: the
  lookup of its contract raises \<open>KeyError\<close> as well.
\<close>

theorem missing_membership_raises:
  "map_of (build_cpcodeMap (listCpCodes ex_api_nogroup)) 100 = Some ex_cp100 \<and>
   usage_cpcodes ex_api_nogroup ''X'' ''2024-03'' = [100] \<and>
   cptrafficPerMonth ex_api_nogroup ''X'' ''2024-03'' False = Some (Inl KeyError) \<and>
   map_of (build_cpcodeMap (listCpCodes ex_api_unknown)) 999 = None \<and>
   usage_cpcodes ex_api_unknown ''X'' ''2024-03'' = [999] \<and>
   cptrafficPerMonth ex_api_unknown ''X'' ''2024-03'' False = Some (Inl KeyError)"
proof -
  have "map_of (build_cpcodeMap (listCpCodes ex_api_nogroup)) 100 = Some ex_cp100"
    by code_simp
  moreover have "usage_cpcodes ex_api_nogroup ''X'' ''2024-03'' = [100]" by code_simp
  moreover have "cptrafficPerMonth ex_api_nogroup ''X'' ''2024-03'' False = Some (Inl KeyError)"
    by code_simp
  moreover have "map_of (build_cpcodeMap (listCpCodes ex_api_unknown)) 999 = None"
    by code_simp
  moreover have "usage_cpcodes ex_api_unknown ''X'' ''2024-03'' = [999]" by code_simp
  moreover have "cptrafficPerMonth ex_api_unknown ''X'' ''2024-03'' False = Some (Inl KeyError)"
    by code_simp
  ultimately show ?thesis by simp
qed

text \<open>
  C2, at an input where the code departs from it. The usage feed has a byte volume and no
  hit count for entity 100; its row holds \<^verbatim>\<open>None\<close> under \<^verbatim>\<open>"hits"\<close> and the aggregator
  raises \<open>TypeError\<close> instead of returning a bucket table.
\<close>

theorem none_statistic_raises:
  "cptrafficPerMonth ex_api_bytes ''X'' ''2024-03'' False =
     Some (Inr [ex_row100\<lparr>row_hits := Some None\<rparr>]) \<and>
   sumRepGroups [] [ex_row100\<lparr>row_hits := Some None\<rparr>] = Inl TypeError"
proof -
  have "cptrafficPerMonth ex_api_bytes ''X'' ''2024-03'' False =
     Some (Inr [ex_row100\<lparr>row_hits := Some None\<rparr>])"
    by code_simp
  moreover have "sumRepGroups [] [ex_row100\<lparr>row_hits := Some None\<rparr>] = Inl TypeError"
    by code_simp
  ultimately show ?thesis by simp
qed

section \<open>The summary identity for rows without a \<open>None\<close> statistic\<close>

definition hits_of :: "row \<Rightarrow> real" where
  "hits_of r = (case row_hits r of Some (Some h) \<Rightarrow> h | _ \<Rightarrow> 0)"

definition gb_of :: "row \<Rightarrow> real" where
  "gb_of r = (case row_gb r of Some (Some g) \<Rightarrow> g | _ \<Rightarrow> 0)"

definition total_hits :: "table \<Rightarrow> real" where
  "total_hits t = sum_list (map (\<lambda>(n, b). b_hits b) t)"

definition total_gb :: "table \<Rightarrow> real" where
  "total_gb t = sum_list (map (\<lambda>(n, b). b_gb b) t)"

lemma ensure_bucket_props:
  assumes "distinct (map fst t)"
  shows "distinct (map fst (ensure_bucket t name))"
    and "name \<in> fst ` set (ensure_bucket t name)"
    and "total_hits (ensure_bucket t name) = total_hits t"
    and "total_gb (ensure_bucket t name) = total_gb t"
  using assms by (auto simp: ensure_bucket_def total_hits_def total_gb_def)

lemma bucket_inc_absent: "name \<notin> fst ` set t \<Longrightarrow> map (bucket_inc name dh dg) t = t"
  by (induction t) (auto simp: bucket_inc_def)

lemma bucket_inc_keys: "map fst (map (bucket_inc name dh dg) t) = map fst t"
  by (induction t) (auto simp: bucket_inc_def)

lemma bucket_inc_totals:
  "distinct (map fst t) \<Longrightarrow> name \<in> fst ` set t \<Longrightarrow>
     total_hits (map (bucket_inc name dh dg) t) = total_hits t + dh \<and>
     total_gb (map (bucket_inc name dh dg) t) = total_gb t + dg"
proof (induction t)
  case Nil
  then show ?case by simp
next
  case (Cons p t)
  obtain n b where p: "p = (n, b)" by (cases p)
  show ?case
  proof (cases "n = name")
    case True
    with Cons.prems(1) have "name \<notin> fst ` set t" by (auto simp: p)
    from bucket_inc_absent [OF this] True show ?thesis
      by (simp add: p total_hits_def total_gb_def bucket_inc_def)
  next
    case False
    with Cons.prems have "distinct (map fst t)" and "name \<in> fst ` set t"
      by (auto simp: p)
    from Cons.IH [OF this] False show ?thesis
      by (simp add: p total_hits_def total_gb_def bucket_inc_def)
  qed
qed

lemma bucket_add_totals:
  assumes "bucket_add t name r k = Inr t'" and "distinct (map fst t)"
  shows "distinct (map fst t') \<and> total_hits t' = total_hits t + k * hits_of r \<and>
         total_gb t' = total_gb t + k * gb_of r"
proof -
  from assms(1) obtain h g where
    h: "row_get (row_hits r) 0 = Some h" and g: "row_get (row_gb r) 0 = Some g"
    and t': "t' = map (bucket_inc name (k * h) (k * g)) (ensure_bucket t name)"
    by (auto simp: bucket_add_def split: option.splits)
  have hg: "h = hits_of r" "g = gb_of r"
    using h g by (auto simp: row_get_def hits_of_def gb_of_def split: option.splits)
  note e = ensure_bucket_props [OF assms(2), of name]
  have "map fst t' = map fst (ensure_bucket t name)"
    unfolding t' by (rule bucket_inc_keys)
  with e(1) have "distinct (map fst t')" by simp
  moreover from bucket_inc_totals [OF e(1) e(2), of "k * h" "k * g"] e(3,4) hg
  have "total_hits t' = total_hits t + k * hits_of r \<and> total_gb t' = total_gb t + k * gb_of r"
    unfolding t' by simp
  ultimately show ?thesis by simp
qed

lemma credit_groups_totals:
  "credit_groups t rgs r = Inr t' \<Longrightarrow> distinct (map fst t) \<Longrightarrow>
     distinct (map fst t') \<and> total_hits t' = total_hits t + real (length rgs) * hits_of r \<and>
     total_gb t' = total_gb t + real (length rgs) * gb_of r"
proof (induction rgs arbitrary: t)
  case Nil
  then show ?case by simp
next
  case (Cons rg rgs)
  from Cons.prems(1) obtain t1 where
    a: "bucket_add t rg r 1 = Inr t1" and b: "credit_groups t1 rgs r = Inr t'"
    by (auto split: sum.splits)
  from bucket_add_totals [OF a Cons.prems(2)] have
    d1: "distinct (map fst t1)" and h1: "total_hits t1 = total_hits t + hits_of r"
    and g1: "total_gb t1 = total_gb t + gb_of r"
    by simp_all
  from Cons.IH [OF b d1] h1 g1 show ?case
    by (simp add: algebra_simps)
qed

lemma sum_row_totals:
  assumes "sum_row t r = Inr t'" and "distinct (map fst t)"
  shows "distinct (map fst t') \<and> total_hits t' = total_hits t + hits_of r \<and>
         total_gb t' = total_gb t + gb_of r"
proof -
  define k where "k = length (row_repGroups r)"
  from assms(1) obtain t1 where a: "credit_groups t (row_repGroups r) r = Inr t1"
    by (auto simp: sum_row_def bind_res_def split: sum.splits)
  from credit_groups_totals [OF a assms(2)] have
    d1: "distinct (map fst t1)" and h1: "total_hits t1 = total_hits t + real k * hits_of r"
    and g1: "total_gb t1 = total_gb t + real k * gb_of r"
    by (simp_all add: k_def)
  consider (none) "k = 0" | (one) "k = 1" | (many) "k > 1" by arith
  then show ?thesis
  proof cases
    case none
    with assms(1) a have "bucket_add t1 ''#None'' r 1 = Inr t'"
      by (simp add: sum_row_def bind_res_def k_def split: sum.splits)
    from bucket_add_totals [OF this d1] h1 g1 none show ?thesis by simp
  next
    case one
    then have "row_repGroups r \<noteq> []" by (auto simp: k_def)
    with one assms(1) a have "t' = t1"
      by (simp add: sum_row_def bind_res_def k_def)
    with d1 h1 g1 one show ?thesis by simp
  next
    case many
    then have "row_repGroups r \<noteq> []" by (auto simp: k_def)
    with many assms(1) a have "bucket_add t1 ''#Multiple'' r (- (real (k - 1))) = Inr t'"
      by (simp add: sum_row_def bind_res_def k_def)
    from bucket_add_totals [OF this d1] h1 g1 many show ?thesis
      by (simp add: algebra_simps of_nat_diff)
  qed
qed

lemma sumRepGroups_totals:
  "sumRepGroups t rows = Inr t' \<Longrightarrow> distinct (map fst t) \<Longrightarrow>
     total_hits t' = total_hits t + sum_list (map hits_of rows) \<and>
     total_gb t' = total_gb t + sum_list (map gb_of rows)"
proof (induction rows arbitrary: t)
  case Nil
  then show ?case by simp
next
  case (Cons r rows)
  from Cons.prems(1) obtain t1 where
    a: "sum_row t r = Inr t1" and b: "sumRepGroups t1 rows = Inr t'"
    by (auto split: sum.splits)
  from sum_row_totals [OF a Cons.prems(2)] Cons.IH [OF b] show ?case
    by simp
qed

lemma sumRepGroups_identity:
  assumes "sumRepGroups [] rows = Inr t"
  shows "total_hits t = sum_list (map hits_of rows)"
    and "total_gb t = sum_list (map gb_of rows)"
  using sumRepGroups_totals [OF assms] by (simp_all add: total_hits_def total_gb_def)

lemma bucket_add_returns:
  "row_hits r \<noteq> Some None \<Longrightarrow> row_gb r \<noteq> Some None \<Longrightarrow> \<exists>t'. bucket_add t name r k = Inr t'"
  by (auto simp: bucket_add_def row_get_def split: option.splits)

lemma credit_groups_returns:
  "row_hits r \<noteq> Some None \<Longrightarrow> row_gb r \<noteq> Some None \<Longrightarrow> \<exists>t'. credit_groups t rgs r = Inr t'"
proof (induction rgs arbitrary: t)
  case Nil
  then show ?case by simp
next
  case (Cons rg rgs)
  from bucket_add_returns [OF Cons.prems, of t rg 1] obtain t1 where
    "bucket_add t rg r 1 = Inr t1" by blast
  with Cons.IH [OF Cons.prems, of t1] show ?case by simp
qed

lemma sum_row_returns:
  assumes "row_hits r \<noteq> Some None" and "row_gb r \<noteq> Some None"
  shows "\<exists>t'. sum_row t r = Inr t'"
proof -
  from credit_groups_returns [OF assms] obtain t1 where
    a: "credit_groups t (row_repGroups r) r = Inr t1" by blast
  from bucket_add_returns [OF assms] obtain t2 where
    b: "bucket_add t1 ''#None'' r 1 = Inr t2" by blast
  from bucket_add_returns [OF assms] obtain t3 where
    c: "bucket_add t1 ''#Multiple'' r (- (real (length (row_repGroups r) - 1))) = Inr t3" by blast
  from a b c show ?thesis
    by (cases "length (row_repGroups r) = 0") (auto simp: sum_row_def bind_res_def)
qed

lemma sumRepGroups_returns:
  "\<forall>r \<in> set rows. row_hits r \<noteq> Some None \<and> row_gb r \<noteq> Some None \<Longrightarrow>
     \<exists>t'. sumRepGroups t rows = Inr t'"
proof (induction rows arbitrary: t)
  case Nil
  then show ?case by simp
next
  case (Cons r rows)
  from Cons.prems sum_row_returns [of r t] obtain t1 where "sum_row t r = Inr t1"
    by auto
  with Cons.IH [of t1] Cons.prems show ?case by simp
qed

section \<open>The no-traffic filter\<close>

definition passes_filter :: "int set \<Rightarrow> int \<times> cpcode \<Rightarrow> bool" where
  "passes_filter added = (\<lambda>(c, cp). c \<notin> added \<and> validContract cp \<and> validProduct cp)"

lemma passes_filter_insert:
  "c \<notin> fst ` set kvs \<Longrightarrow> filter (passes_filter (insert c added)) kvs = filter (passes_filter added) kvs"
  by (rule filter_cong) (force simp: passes_filter_def image_iff)+

lemma notraffic_loop_filter:
  "notraffic_loop x kvs (t, ad) = Inr (t', ad') \<Longrightarrow> distinct (map fst kvs) \<Longrightarrow>
     map row_cpcode (drop (length t) t') = map fst (filter (passes_filter ad) kvs)"
proof (induction kvs arbitrary: t ad)
  case Nil
  then show ?case by simp
next
  case (Cons kv kvs)
  obtain c cp where kv: "kv = (c, cp)" by (cases kv)
  from Cons.prems(2) have fresh: "c \<notin> fst ` set kvs" and dist: "distinct (map fst kvs)"
    by (auto simp: kv)
  show ?case
  proof (cases "passes_filter ad (c, cp)")
    case False
    then consider (tracked) "c \<in> ad" | (invalid) "c \<notin> ad" "\<not> validContract cp \<or> \<not> validProduct cp"
      by (auto simp: passes_filter_def)
    then show ?thesis
    proof cases
      case tracked
      with Cons.prems(1) have "notraffic_loop x kvs (t, insert c ad) = Inr (t', ad')"
        by (simp add: kv)
      from Cons.IH [OF this dist] False show ?thesis
        by (simp add: kv passes_filter_insert [OF fresh])
    next
      case invalid
      with Cons.prems(1) have "notraffic_loop x kvs (t, ad) = Inr (t', ad')"
        by (auto simp: kv split: if_splits)
      from Cons.IH [OF this dist] False show ?thesis
        by (simp add: kv)
    qed
  next
    case True
    then have "c \<notin> ad" "validContract cp" "validProduct cp"
      by (simp_all add: passes_filter_def)
    with Cons.prems(1) obtain r where r: "notraffic_row x c cp = Inr r"
      and rest: "notraffic_loop x kvs (t @ [r], insert c ad) = Inr (t', ad')"
      by (auto simp: kv split: sum.splits)
    from notraffic_loop_rows [OF rest] obtain rs where t': "t' = (t @ [r]) @ rs"
      by blast
    from Cons.IH [OF rest dist] have
      "map row_cpcode (drop (length (t @ [r])) t') = map fst (filter (passes_filter ad) kvs)"
      by (simp add: passes_filter_insert [OF fresh])
    with t' notraffic_row_props(1) [OF r] True show ?thesis
      by (simp add: kv)
  qed
qed

end
